theory Spec2Isabelle
  imports Main "HOL-Library.Word"
begin

unbundle bit_operations_syntax

section \<open>The timer survey program (timers/main.c)\<close>

text \<open>
  The program samples three clocks of the console (performance counter, kernel tick
  counter, CPU time stamp counter) once per second and prints how many milliseconds each
  of them says have passed.  It is built for a 32-bit x86 target: \<open>unsigned\<close> and
  \<open>ULONG\<close> are 32 bits wide, \<open>unsigned long long\<close> is 64 bits wide.
\<close>

type_synonym u32 = "32 word"
type_synonym u64 = "64 word"
type_synonym addr = nat

subsection \<open>Machine level: faults, memory cells, the two instructions\<close>

text \<open>The only hardware exception the program can raise is the divide error (\<open>#DE\<close>).\<close>

datatype fault = DivideError

text \<open>
  The content of a C object: a defined 32-bit value, or the indeterminate value of an
  automatic variable that was never assigned.
\<close>

datatype cval = Defined u32 | Indeterminate

text \<open>
  The instruction \<open>divl r\<close>: divides the 64-bit number \<open>EDX:EAX\<close> by the 32-bit
  operand; the quotient goes to \<open>EAX\<close>, the remainder to \<open>EDX\<close>.  It raises
  \<open>#DE\<close> when the operand is zero or the quotient does not fit in 32 bits.  The result
  pair is (new \<open>EAX\<close>, new \<open>EDX\<close>).
\<close>

definition x86_divl :: "u32 \<Rightarrow> u32 \<Rightarrow> u32 \<Rightarrow> fault + (u32 \<times> u32)" where
  "x86_divl edx eax r =
     (let n = unat edx * 2 ^ 32 + unat eax in
      if r = 0 then Inl DivideError
      else if 2 ^ 32 \<le> n div unat r then Inl DivideError
      else Inr (word_of_nat (n div unat r), word_of_nat (n mod unat r)))"

subsection \<open>\<open>divl\<close>: unsigned divide 64-bit by 32-bit\<close>

text \<open>
  \<^verbatim>\<open>
  unsigned divl(unsigned long long dividend, unsigned divisor, unsigned *remainder)
  {
      unsigned hi = dividend >> 32, lo = dividend, _remainder, quotient;
      asm __volatile__ ("divl %1"
          : "=a" (quotient)
          : "r" (divisor), "d" (hi), "a" (lo));
      if (remainder) *remainder = _remainder;
      return quotient;
  }
  \<close>
  The only output operand of the \<open>asm\<close> statement is \<open>quotient\<close> (register \<open>EAX\<close>):
  the local \<open>_remainder\<close> is declared, never assigned, and then copied to
  \<open>*remainder\<close>.  The pointer argument is \<open>None\<close> for \<open>NULL\<close>.  The function returns
  the quotient together with the list of stores it performed.
\<close>

definition divl :: "u64 \<Rightarrow> u32 \<Rightarrow> addr option \<Rightarrow> fault + (u32 \<times> (addr \<times> cval) list)" where
  "divl dividend divisor remainder =
     (let hi = (ucast (drop_bit 32 dividend) :: u32);
          lo = (ucast dividend :: u32);
          remainder_local = Indeterminate
      in case x86_divl hi lo divisor of
           Inl f \<Rightarrow> Inl f
         | Inr (quotient_eax, edx_after) \<Rightarrow>
             Inr (quotient_eax,
                  (case remainder of
                     None \<Rightarrow> []
                   | Some p \<Rightarrow> [(p, remainder_local)])))"

subsection \<open>\<open>rdtsc\<close>: read the time stamp counter\<close>

text \<open>
  \<^verbatim>\<open>
  unsigned long long rdtsc(void)
  {
      unsigned hi, lo;
      asm volatile ("rdtsc" : "=d" (hi), "=a" (lo));
      return ((long long) hi << 32) | lo;
  }
  \<close>
  The instruction reports the counter in \<open>EDX\<close> (high half) and \<open>EAX\<close> (low half); the
  two registers are the arguments of the model.  The shift and the bitwise or are taken
  on the 64-bit two's complement representation.
\<close>

definition rdtsc :: "u32 \<Rightarrow> u32 \<Rightarrow> u64" where
  "rdtsc edx eax =
     (let hi = edx; lo = eax
      in push_bit 32 (ucast hi :: u64) OR (ucast lo :: u64))"

subsection \<open>\<open>tsc_to_ms\<close>: convert time stamp counter readings to milliseconds\<close>

text \<open>
  \<^verbatim>\<open>
  unsigned tsc_to_ms(unsigned long long tsc)
  {
      unsigned ms, freq = 733333;
      return divl(tsc, freq, NULL);
  }
  \<close>
\<close>

definition tsc_to_ms :: "u64 \<Rightarrow> fault + (u32 \<times> (addr \<times> cval) list)" where
  "tsc_to_ms tsc = (let freq = (733333 :: u32) in divl tsc freq None)"

subsection \<open>The three deltas computed in the loop body\<close>

text \<open>
  \<^verbatim>\<open>
  perf_delta  = (ULONG)(perf_cur-perf_start) / perf_freq;
  ticks_delta = ticks_cur - ticks_start;
  tsc_delta   = tsc_to_ms(tsc_cur - tsc_start);
  \<close>
  \<open>perf_cur\<close>, \<open>perf_start\<close>, \<open>ticks_cur\<close>, \<open>ticks_start\<close> are \<open>unsigned long long\<close>;
  \<open>perf_freq\<close> and the three deltas are \<open>unsigned\<close>.  The cast to \<open>ULONG\<close> keeps the
  low 32 bits of the difference before the division; the assignment to \<open>ticks_delta\<close>
  keeps the low 32 bits of the difference.  A division by zero raises the divide error.
\<close>

definition perf_delta :: "u64 \<Rightarrow> u64 \<Rightarrow> u32 \<Rightarrow> fault + u32" where
  "perf_delta perf_cur perf_start perf_freq =
     (if perf_freq = 0 then Inl DivideError
      else Inr ((ucast (perf_cur - perf_start) :: u32) div perf_freq))"

definition ticks_delta :: "u64 \<Rightarrow> u64 \<Rightarrow> u32" where
  "ticks_delta ticks_cur ticks_start = ucast (ticks_cur - ticks_start)"

subsection \<open>What the program does to the outside: events\<close>

text \<open>
  A run is observed as the sequence of calls into the platform (graphics, kernel, debug
  console, sleep, reboot), of counter reads, and of stores through pointers.
\<close>

datatype event =
    CallPbInit
  | CallPbShowDebugScreen
  | CallPbKill
  | CallKeQueryPerformanceCounter
  | CallKeQueryPerformanceFrequency
  | ReadKeTickCount
  | InsnRdtsc
  | CallDebugClearScreen
  | CallDebugPrint string
  | CallXSleep u32
  | CallXReboot
  | Store addr cval

text \<open>How a run, or the loop, ends: normally, or by a hardware fault.\<close>

datatype ending = Normal | Fault fault

subsection \<open>The debug console: \<open>printf\<close> with the conversion \<open>%d\<close>\<close>

text \<open>
  \<open>printf\<close> is \<open>debugPrint\<close>, the \<open>printf\<close>-like routine of the toolchain's debug
  console.  The program's format strings use the conversion \<open>%d\<close> only, which prints
  its 32-bit argument as a signed decimal number; the arguments passed are the
  \<open>unsigned\<close> deltas.
\<close>

definition digit_char :: "nat \<Rightarrow> char" where
  "digit_char n = ''0123456789'' ! (n mod 10)"

fun dec :: "nat \<Rightarrow> string" where
  "dec n = (if n < 10 then [digit_char n] else dec (n div 10) @ [digit_char (n mod 10)])"

declare dec.simps [simp del]

definition fmt_d :: "u32 \<Rightarrow> string" where
  "fmt_d x = (if sint x < 0 then CHR ''-'' # dec (nat (- sint x)) else dec (nat (sint x)))"

definition newline :: string where
  "newline = [CHR 0x0A]"

text \<open>
  \<^verbatim>\<open>
  debugClearScreen();
  printf("Performance Counter: %d ms elapsed\n", perf_delta);
  printf("       Tick Counter: %d ms elapsed\n", ticks_delta);
  printf(" Time Stamp Counter: %d ms elapsed\n", tsc_delta);
  printf("\n");
  \<close>
\<close>

definition display :: "u32 \<Rightarrow> u32 \<Rightarrow> u32 \<Rightarrow> event list" where
  "display perf_d ticks_d tsc_d =
     [CallDebugClearScreen,
      CallDebugPrint (''Performance Counter: '' @ fmt_d perf_d @ '' ms elapsed'' @ newline),
      CallDebugPrint (''       Tick Counter: '' @ fmt_d ticks_d @ '' ms elapsed'' @ newline),
      CallDebugPrint ('' Time Stamp Counter: '' @ fmt_d tsc_d @ '' ms elapsed'' @ newline),
      CallDebugPrint newline]"



subsection \<open>The platform\<close>

text \<open>
  What the platform answers during one run.  \<open>readings p 0\<close> is the baseline sample,
  \<open>readings p (Suc i)\<close> the sample taken in loop iteration \<open>i\<close>.  A sample holds the
  values as the program stores them: \<open>perf_cur\<close> and \<open>ticks_cur\<close> are
  \<open>unsigned long long\<close>, the time stamp counter arrives in \<open>EDX:EAX\<close>.
\<close>

record sample =
  perf_counter :: u64
  tick_count :: u64
  tsc_edx :: u32
  tsc_eax :: u32

record platform =
  pb_init_status :: int
  perf_frequency :: u64
  readings :: "nat \<Rightarrow> sample"

definition SAMPLE_STEP :: u32 where
  "SAMPLE_STEP = 1000"

definition SAMPLE_END :: u32 where
  "SAMPLE_END = 315000"

subsection \<open>The body of the sampling loop\<close>

text \<open>
  \<^verbatim>\<open>
  perf_cur  = KeQueryPerformanceCounter();
  ticks_cur = KeTickCount;
  tsc_cur   = rdtsc();
  perf_delta  = (ULONG)(perf_cur-perf_start) / perf_freq;
  ticks_delta = ticks_cur - ticks_start;
  tsc_delta   = tsc_to_ms(tsc_cur - tsc_start);
  debugClearScreen(); printf(...); printf(...); printf(...); printf("\n");
  XSleep(SAMPLE_STEP);
  \<close>
  The body of iteration \<open>i\<close> yields the events it performed and, when a division
  faulted, the fault that ended it.
\<close>

definition sample_body ::
  "platform \<Rightarrow> u64 \<Rightarrow> u32 \<Rightarrow> u64 \<Rightarrow> u64 \<Rightarrow> u32 \<Rightarrow> nat \<Rightarrow> event list \<times> fault option" where
  "sample_body p perf_start perf_freq ticks_start tsc_start step i =
     (let cur = readings p (Suc i);
          perf_cur = perf_counter cur;
          ticks_cur = tick_count cur;
          tsc_cur = rdtsc (tsc_edx cur) (tsc_eax cur);
          reads = [CallKeQueryPerformanceCounter, ReadKeTickCount, InsnRdtsc]
      in case perf_delta perf_cur perf_start perf_freq of
           Inl f \<Rightarrow> (reads, Some f)
         | Inr perf_d \<Rightarrow>
             (let ticks_d = ticks_delta ticks_cur ticks_start
              in case tsc_to_ms (tsc_cur - tsc_start) of
                   Inl f \<Rightarrow> (reads, Some f)
                 | Inr (tsc_d, stores) \<Rightarrow>
                     (reads @ map (\<lambda>(a, v). Store a v) stores
                        @ display perf_d ticks_d tsc_d @ [CallXSleep step], None)))"

subsection \<open>The sampling loop\<close>

text \<open>
  \<^verbatim>\<open>
  for (elapsed = 0; elapsed < SAMPLE_END; elapsed += SAMPLE_STEP) { ... }
  \<close>
  The loop is parametric in the step and the end, so that runs with other constants can
  be stated; \<open>main\<close> passes \<open>SAMPLE_STEP\<close> and \<open>SAMPLE_END\<close>.  The counter is an
  \<open>unsigned\<close> and wraps around; with a step of 0 the loop never ends, which is the
  value \<open>None\<close>.  Besides the events, the loop keeps the list of the counter values at
  which the body was entered.
\<close>

partial_function (option) sample_loop ::
  "u32 \<Rightarrow> u32 \<Rightarrow> (nat \<Rightarrow> event list \<times> fault option) \<Rightarrow> u32 \<Rightarrow> nat \<Rightarrow> u32 list \<Rightarrow> event list
     \<Rightarrow> (ending \<times> u32 list \<times> event list) option" where
  "sample_loop step stop body elapsed i visited tr =
     (if elapsed < stop then
        (case body i of
           (evs, Some f) \<Rightarrow> Some (Fault f, visited @ [elapsed], tr @ evs)
         | (evs, None) \<Rightarrow>
             sample_loop step stop body (elapsed + step) (Suc i) (visited @ [elapsed]) (tr @ evs))
      else Some (Normal, visited, tr))"

subsection \<open>\<open>main\<close>\<close>

text \<open>
  \<^verbatim>\<open>
  if (pb_init()) { XSleep(2000); XReboot(); }
  pb_show_debug_screen();
  perf_start  = KeQueryPerformanceCounter();
  perf_freq   = (unsigned) KeQueryPerformanceFrequency() / 1000;
  ticks_start = KeTickCount;
  tsc_start   = rdtsc();
  for (...) { ... }
  pb_kill();
  XReboot();
  \<close>
  Modelled from the spec: \<open>XReboot\<close>, a routine of the platform library, restarts the
  console and control does not return from it, so a run ends at the first \<open>XReboot\<close>.
  The result is how the run ended and the events it performed.
\<close>

definition main :: "platform \<Rightarrow> (ending \<times> event list) option" where
  "main p =
     (if pb_init_status p \<noteq> 0 then
        Some (Normal, [CallPbInit, CallXSleep 2000, CallXReboot])
      else
        (let start = readings p 0;
             perf_start = perf_counter start;
             perf_freq = (ucast (perf_frequency p) :: u32) div 1000;
             ticks_start = tick_count start;
             tsc_start = rdtsc (tsc_edx start) (tsc_eax start);
             tr = [CallPbInit, CallPbShowDebugScreen, CallKeQueryPerformanceCounter,
                   CallKeQueryPerformanceFrequency, ReadKeTickCount, InsnRdtsc]
         in case sample_loop SAMPLE_STEP SAMPLE_END
                   (sample_body p perf_start perf_freq ticks_start tsc_start SAMPLE_STEP)
                   0 0 [] tr of
              None \<Rightarrow> None
            | Some (Fault f, visited, tr') \<Rightarrow> Some (Fault f, tr')
            | Some (Normal, visited, tr') \<Rightarrow> Some (Normal, tr' @ [CallPbKill, CallXReboot])))"

subsection \<open>Auxiliary notions for the properties\<close>

text \<open>
  The number of times the loop body runs when the counter is at \<open>elapsed\<close>, provided
  the counter does not wrap around: the least \<open>n\<close> with
  \<open>elapsed + n * step \<ge> stop\<close>.
\<close>

definition iterations :: "u32 \<Rightarrow> u32 \<Rightarrow> u32 \<Rightarrow> nat" where
  "iterations step stop elapsed = (unat stop - unat elapsed + unat step - 1) div unat step"

text \<open>
  An example platform: graphics initialisation succeeds, the performance counter runs at
  3.375 MHz, the baseline sample is taken at tick 1200, and every later sample reads the
  performance counter 3374 ticks, the tick counter 3800 ms and the time stamp counter
  1466666 cycles after the baseline.  \<open>broken_display\<close> is the same platform with a
  failing graphics initialisation.
\<close>

definition example_platform :: platform where
  "example_platform =
     \<lparr>pb_init_status = 0, perf_frequency = 3375000,
      readings = (\<lambda>i. if i = 0
         then \<lparr>perf_counter = 0, tick_count = 1200, tsc_edx = 0, tsc_eax = 0\<rparr>
         else \<lparr>perf_counter = 3374, tick_count = 5000, tsc_edx = 0, tsc_eax = 1466666\<rparr>)\<rparr>"

definition broken_display :: platform where
  "broken_display = example_platform\<lparr>pb_init_status := 1\<rparr>"


text \<open>
  The events of one complete loop iteration, written out: the three counter reads, the
  cleared screen, the three lines and the blank line, the sleep.  \<open>iteration_trace\<close>
  are these events for the deltas of iteration \<open>i\<close> on a platform.
\<close>

abbreviation iteration_events :: "u32 \<Rightarrow> u32 \<Rightarrow> u32 \<Rightarrow> u32 \<Rightarrow> event list" where
  "iteration_events step x y z \<equiv>
     [CallKeQueryPerformanceCounter, ReadKeTickCount, InsnRdtsc,
      CallDebugClearScreen,
      CallDebugPrint (''Performance Counter: '' @ fmt_d x @ '' ms elapsed'' @ newline),
      CallDebugPrint (''       Tick Counter: '' @ fmt_d y @ '' ms elapsed'' @ newline),
      CallDebugPrint ('' Time Stamp Counter: '' @ fmt_d z @ '' ms elapsed'' @ newline),
      CallDebugPrint newline,
      CallXSleep step]"

abbreviation iteration_trace ::
  "platform \<Rightarrow> u64 \<Rightarrow> u32 \<Rightarrow> u64 \<Rightarrow> u64 \<Rightarrow> u32 \<Rightarrow> nat \<Rightarrow> event list" where
  "iteration_trace p perf_start perf_freq ticks_start tsc_start step i \<equiv>
     iteration_events step
       ((ucast (perf_counter (readings p (Suc i)) - perf_start) :: u32) div perf_freq)
       (ucast (tick_count (readings p (Suc i)) - ticks_start))
       (word_of_nat (unat (rdtsc (tsc_edx (readings p (Suc i))) (tsc_eax (readings p (Suc i)))
                             - tsc_start) div 733333))"

text \<open>
  \<open>slow_clock\<close> is the example platform with a performance counter that reports a
  frequency of 999 Hz, below one tick per millisecond.
\<close>

definition slow_clock :: platform where
  "slow_clock = example_platform\<lparr>perf_frequency := 999\<rparr>"

section \<open>Properties\<close>

subsection \<open>The wide division\<close>

lemma split64:
  "unat (ucast (drop_bit 32 (d :: u64)) :: u32) * 2 ^ 32 + unat (ucast d :: u32) = unat d"
proof -
  have lt: "unat d < 2 ^ 64" using unsigned_less [of d] by simp
  then have "unat d div 2 ^ 32 < 2 ^ 32"
    by (simp add: less_mult_imp_div_less)
  then have a: "unat (ucast (drop_bit 32 d) :: u32) = unat d div 2 ^ 32"
    by (simp add: unsigned_ucast_eq unat_drop_bit_eq drop_bit_eq_div take_bit_eq_mod unat_div)
  have b: "unat (ucast d :: u32) = unat d mod 2 ^ 32"
    by (simp add: unsigned_ucast_eq take_bit_eq_mod)
  show ?thesis unfolding a b by simp
qed

text \<open>
  The quotient that \<open>divl\<close> returns is right whenever the instruction does not fault;
  nothing of the kind holds for what it stores through the pointer.
\<close>

lemma divl_quotient:
  assumes "divisor \<noteq> 0" "unat dividend < 2 ^ 32 * unat divisor"
  shows "divl dividend divisor r =
    Inr (word_of_nat (unat dividend div unat divisor),
         case r of None \<Rightarrow> [] | Some p \<Rightarrow> [(p, Indeterminate)])"
proof -
  have "unat dividend div unat divisor < 2 ^ 32"
    using assms(2) by (simp add: less_mult_imp_div_less mult.commute)
  then have "\<not> (2::nat) ^ 32 \<le> unat dividend div unat divisor" by simp
  then show ?thesis
    using assms(1) unfolding divl_def x86_divl_def Let_def split64 by simp
qed

lemma divl_stores:
  "divl dividend divisor (Some p) = Inr (q, st) \<Longrightarrow> st = [(p, Indeterminate)]"
  by (auto simp: divl_def Let_def split: sum.splits)

text \<open>
  C1.  The claim: for a dividend \<open>D\<close> and a divisor \<open>V > 0\<close> with \<open>D < 2^32 * V\<close>,
  \<open>divl(D, V, &r)\<close> returns \<open>Q\<close> and stores \<open>R\<close> with \<open>Q * V + R = D\<close> and \<open>R < V\<close>.
  The code does not: at \<open>D = 7\<close>, \<open>V = 2\<close> it returns the quotient 3 and stores the
  never-assigned local instead of the remainder 1, and for no input at all does it store
  a defined value.
\<close>

theorem divl_remainder_never_assigned:
  "divl 7 2 (Some p) = Inr (3, [(p, Indeterminate)])
   \<and> (\<forall>D V q r. divl D V (Some p) \<noteq> Inr (q, [(p, Defined r)]))"
proof
  show "divl 7 2 (Some p) = Inr (3, [(p, Indeterminate)])"
    by (simp add: divl_def x86_divl_def Let_def)
  show "\<forall>D V q r. divl D V (Some p) \<noteq> Inr (q, [(p, Defined r)])"
    using divl_stores by fastforce
qed

subsection \<open>The conversion of cycles to milliseconds\<close>

lemma tsc_to_ms_fits:
  assumes "unat tsc div 733333 < 2 ^ 32"
  shows "tsc_to_ms tsc = Inr (word_of_nat (unat tsc div 733333), [])"
    and "unat (word_of_nat (unat tsc div 733333) :: u32) = unat tsc div 733333"
proof -
  have "unat tsc < 2 ^ 32 * 733333"
    using assms by (simp add: div_less_iff_less_mult)
  then have "unat tsc < 2 ^ 32 * unat (733333 :: u32)" by simp
  then have "divl tsc 733333 None =
      Inr (word_of_nat (unat tsc div unat (733333 :: u32)), [])"
    by (subst divl_quotient) simp_all
  then show "tsc_to_ms tsc = Inr (word_of_nat (unat tsc div 733333), [])"
    by (simp add: tsc_to_ms_def)
  show "unat (word_of_nat (unat tsc div 733333) :: u32) = unat tsc div 733333"
    using assms by (simp add: unat_of_nat)
qed

text \<open>
  C4.  For every 64-bit cycle count whose quotient by 733333 fits in 32 bits,
  \<open>tsc_to_ms\<close> returns that truncating quotient; it computes it by \<open>divl\<close> with the
  divisor 733333 and no remainder pointer; and \<open>tsc_to_ms(0) = 0\<close>.
\<close>

theorem tsc_to_ms_value:
  "(unat tsc div 733333 < 2 ^ 32 \<longrightarrow>
      (\<exists>ms. tsc_to_ms tsc = Inr (ms, []) \<and> unat ms = unat tsc div 733333))
   \<and> tsc_to_ms tsc = divl tsc 733333 None
   \<and> tsc_to_ms 0 = Inr (0, [])"
proof (intro conjI impI)
  assume "unat tsc div 733333 < 2 ^ 32"
  then show "\<exists>ms. tsc_to_ms tsc = Inr (ms, []) \<and> unat ms = unat tsc div 733333"
    using tsc_to_ms_fits by blast
next
  show "tsc_to_ms tsc = divl tsc 733333 None"
    by (simp add: tsc_to_ms_def)
next
  show "tsc_to_ms 0 = Inr (0, [])"
    using tsc_to_ms_fits(1) [of 0] by simp
qed

theorem tsc_to_ms_value_witness:
  "\<exists>ms. tsc_to_ms 1466666 = Inr (ms, []) \<and> unat ms = 2"
  using tsc_to_ms_value [of 1466666, THEN conjunct1] by simp

text \<open>
  C7.  \<open>tsc_to_ms\<close> is monotonically non-decreasing on the inputs whose quotient fits
  in 32 bits: for \<open>a \<le> b\<close> in that domain both calls return, and the result for \<open>a\<close>
  is at most the result for \<open>b\<close>.
\<close>

theorem tsc_to_ms_mono:
  assumes "a \<le> b" and "unat b div 733333 < 2 ^ 32"
  shows "\<exists>x y. tsc_to_ms a = Inr (x, []) \<and> tsc_to_ms b = Inr (y, []) \<and> x \<le> y"
proof -
  have le: "unat a div 733333 \<le> unat b div 733333"
    using assms(1) by (simp add: word_le_nat_alt div_le_mono)
  then have fa: "unat a div 733333 < 2 ^ 32" using assms(2) by simp
  have "(word_of_nat (unat a div 733333) :: u32) \<le> word_of_nat (unat b div 733333)"
    unfolding word_le_nat_alt tsc_to_ms_fits(2) [OF fa] tsc_to_ms_fits(2) [OF assms(2)]
    by (rule le)
  then show ?thesis
    using tsc_to_ms_fits(1) [OF fa] tsc_to_ms_fits(1) [OF assms(2)] by blast
qed

theorem tsc_to_ms_mono_witness:
  "\<exists>x y. tsc_to_ms 733332 = Inr (x, []) \<and> tsc_to_ms 733333 = Inr (y, []) \<and> x \<le> y"
  using tsc_to_ms_mono [of 733332 733333] by simp

subsection \<open>The cycle counter reader\<close>

text \<open>
  C9.  For every pair of 32-bit halves, \<open>rdtsc\<close> returns the 64-bit value
  \<open>hi * 2^32 + lo\<close>: the high half sits in the upper 32 bits, the low half in the lower.
\<close>

theorem rdtsc_combines_halves:
  "unat (rdtsc hi lo) = unat hi * 2 ^ 32 + unat lo"
proof -
  have "rdtsc hi lo = (word_cat hi lo :: u64)"
    by (simp add: rdtsc_def word_cat_eq_push_bit_or)
  also have "\<dots> = push_bit 32 (ucast hi) + ucast lo"
    by (simp add: word_cat_eq)
  finally have e: "rdtsc hi lo = push_bit 32 (ucast hi) + ucast lo" .
  have h: "unat hi < 2 ^ 32" using unsigned_less [of hi] by simp
  have l: "unat lo < 2 ^ 32" using unsigned_less [of lo] by simp
  have s: "unat hi * 2 ^ 32 + unat lo < 2 ^ 64" using h l by simp
  have p: "unat (push_bit 32 (ucast hi :: u64)) = unat hi * 2 ^ 32"
  proof -
    have "unat (push_bit 32 (ucast hi :: u64)) = (unat (ucast hi :: u64) * 2 ^ 32) mod 2 ^ 64"
      by (simp add: push_bit_eq_mult unat_word_ariths)
    also have "unat (ucast hi :: u64) = unat hi"
      using h by (simp add: unsigned_ucast_eq take_bit_eq_mod)
    finally show ?thesis using h by simp
  qed
  have q: "unat (ucast lo :: u64) = unat lo"
    using l by (simp add: unsigned_ucast_eq take_bit_eq_mod)
  have "unat (push_bit 32 (ucast hi :: u64)) + unat (ucast lo :: u64) < 2 ^ LENGTH(64)"
    using s unfolding p q by simp
  then have "unat (push_bit 32 (ucast hi :: u64) + ucast lo)
      = unat (push_bit 32 (ucast hi :: u64)) + unat (ucast lo :: u64)"
    by (simp only: unat_add_lem)
  then show ?thesis unfolding e p q .
qed

subsection \<open>The deltas\<close>

text \<open>
  C2, as claimed: for all 64-bit readings with the current one at or after the baseline
  and every frequency \<open>f > 0\<close>, the performance-counter delta is
  \<open>(current - baseline) div f\<close>.  It is not: the cast to \<open>ULONG\<close> drops the upper
  half of the difference first.  With a raw delta of \<open>2^32\<close> and \<open>f = 3375\<close> the code
  computes 0, the claimed quotient is 1272582.
\<close>

theorem perf_delta_drops_upper_half:
  "(0 :: u64) \<le> 4294967296 \<and> (3375 :: u32) \<noteq> 0
   \<and> perf_delta 4294967296 0 3375 = Inr 0
   \<and> (unat (4294967296 :: u64) - unat (0 :: u64)) div unat (3375 :: u32) = 1272582"
  by (simp add: perf_delta_def)

text \<open>
  C2, amended: for readings with the current one at or after the baseline and \<open>f > 0\<close>,
  the delta is the truncating quotient of the low 32 bits of \<open>current - baseline\<close> by
  \<open>f\<close>; this is \<open>(current - baseline) div f\<close> whenever the raw delta is below
  \<open>2^32\<close>.  With \<open>f = 3375\<close> and a raw delta of 3374 the delta is 0.
\<close>

theorem perf_delta_value:
  assumes "perf_start \<le> perf_cur" and "perf_freq \<noteq> 0"
  shows "(\<exists>d. perf_delta perf_cur perf_start perf_freq = Inr d
            \<and> unat d = ((unat perf_cur - unat perf_start) mod 2 ^ 32) div unat perf_freq
            \<and> (unat perf_cur - unat perf_start < 2 ^ 32 \<longrightarrow>
                 unat d = (unat perf_cur - unat perf_start) div unat perf_freq))
         \<and> perf_delta 3374 0 3375 = Inr 0"
proof -
  have "unat (perf_cur - perf_start) = unat perf_cur - unat perf_start"
    using assms(1) by (simp add: unat_sub)
  then have "unat ((ucast (perf_cur - perf_start) :: u32) div perf_freq)
      = ((unat perf_cur - unat perf_start) mod 2 ^ 32) div unat perf_freq"
    by (simp add: unat_div unsigned_ucast_eq take_bit_eq_mod)
  then have "\<exists>d. perf_delta perf_cur perf_start perf_freq = Inr d
      \<and> unat d = ((unat perf_cur - unat perf_start) mod 2 ^ 32) div unat perf_freq"
    using assms(2) by (simp add: perf_delta_def)
  moreover have "perf_delta 3374 0 3375 = Inr 0"
    by (simp add: perf_delta_def)
  ultimately show ?thesis by auto
qed

theorem perf_delta_value_witness:
  "\<exists>d. perf_delta 3375003374 3375000000 3375 = Inr d \<and> unat d = 0"
proof -
  have "(3375000000 :: u64) \<le> 3375003374" and "(3375 :: u32) \<noteq> 0" by simp_all
  from perf_delta_value [OF this, THEN conjunct1] show ?thesis by simp
qed

text \<open>
  C6, as claimed: for every pair of readings the tick-counter delta is the integer
  \<open>current - baseline\<close>.  It is not: the readings are 64 bits wide and the delta is an
  \<open>unsigned\<close>, so only the low 32 bits of the difference are kept.  With the current
  reading \<open>2^32\<close> and the baseline 0 the delta is 0; with the current reading 1200 and
  the baseline 5000 the delta is \<open>2^32 - 3800\<close>, which is neither the integer
  difference nor the 64-bit one.
\<close>

theorem ticks_delta_keeps_low_half:
  "ticks_delta 4294967296 0 = 0
   \<and> uint (4294967296 :: u64) - uint (0 :: u64) = 4294967296
   \<and> ticks_delta 1200 5000 = 4294963496
   \<and> uint (1200 :: u64) - uint (5000 :: u64) = - 3800
   \<and> (1200 :: u64) - 5000 = 18446744073709547816"
  by (simp add: ticks_delta_def)

text \<open>
  C6, amended: the tick-counter delta is the integer \<open>current - baseline\<close> reduced
  modulo \<open>2^32\<close>, with no scaling; it is exactly \<open>current - baseline\<close> whenever that
  difference lies between 0 and \<open>2^32 - 1\<close>.  In particular the delta of the readings
  5000 and 1200 is 3800.
\<close>

theorem ticks_delta_value:
  "uint (ticks_delta ticks_cur ticks_start) = (uint ticks_cur - uint ticks_start) mod 2 ^ 32
   \<and> (0 \<le> uint ticks_cur - uint ticks_start \<and> uint ticks_cur - uint ticks_start < 2 ^ 32 \<longrightarrow>
        uint (ticks_delta ticks_cur ticks_start) = uint ticks_cur - uint ticks_start)
   \<and> ticks_delta 5000 1200 = 3800"
proof -
  have "uint (ticks_delta ticks_cur ticks_start)
      = ((uint ticks_cur - uint ticks_start) mod 2 ^ 64) mod 2 ^ 32"
    by (simp add: ticks_delta_def unsigned_ucast_eq take_bit_eq_mod uint_word_ariths)
  also have "\<dots> = (uint ticks_cur - uint ticks_start) mod 2 ^ 32"
    by (rule mod_mod_cancel) simp
  finally have m: "uint (ticks_delta ticks_cur ticks_start)
      = (uint ticks_cur - uint ticks_start) mod 2 ^ 32" .
  have "ticks_delta 5000 1200 = 3800"
    by (simp add: ticks_delta_def)
  then show ?thesis using m by simp
qed

theorem ticks_delta_value_witness:
  "uint (ticks_delta 5000 1200) = 3800"
  using ticks_delta_value [of 5000 1200] by simp

subsection \<open>The loop body and the display\<close>


lemma tsc_to_ms_no_store: "tsc_to_ms t = Inr (ms, st) \<Longrightarrow> st = []"
  by (auto simp: tsc_to_ms_def divl_def Let_def split: sum.splits)

lemma display_no_store: "Store a v \<notin> set (display x y z)"
  by (simp add: display_def)

lemma sample_body_no_store:
  "Store a v \<notin> set (fst (sample_body p ps pf ts tss step i))"
  by (auto simp: sample_body_def Let_def display_no_store split: sum.splits dest: tsc_to_ms_no_store)

lemma sample_body_reads:
  "\<exists>rest. fst (sample_body p ps pf ts tss step i)
     = [CallKeQueryPerformanceCounter, ReadKeTickCount, InsnRdtsc] @ rest"
  by (auto simp: sample_body_def Let_def split: sum.splits)

lemma sample_body_ok:
  assumes "pf \<noteq> 0"
    and "unat (rdtsc (tsc_edx (readings p (Suc i))) (tsc_eax (readings p (Suc i))) - tss) div 733333 < 2 ^ 32"
  shows "sample_body p ps pf ts tss step i =
     ([CallKeQueryPerformanceCounter, ReadKeTickCount, InsnRdtsc]
        @ display ((ucast (perf_counter (readings p (Suc i)) - ps) :: u32) div pf)
                  (ticks_delta (tick_count (readings p (Suc i))) ts)
                  (word_of_nat (unat (rdtsc (tsc_edx (readings p (Suc i))) (tsc_eax (readings p (Suc i))) - tss) div 733333))
        @ [CallXSleep step], None)"
  using assms(1) tsc_to_ms_fits(1) [OF assms(2)]
  by (simp add: sample_body_def Let_def perf_delta_def)






lemma display_shape:
  "display x y z =
     [CallDebugClearScreen,
      CallDebugPrint (''Performance Counter: '' @ fmt_d x @ '' ms elapsed'' @ newline),
      CallDebugPrint (''       Tick Counter: '' @ fmt_d y @ '' ms elapsed'' @ newline),
      CallDebugPrint ('' Time Stamp Counter: '' @ fmt_d z @ '' ms elapsed'' @ newline),
      CallDebugPrint newline]"
  by (simp add: display_def)

lemma sample_body_shown:
  assumes "pf \<noteq> 0"
    and "unat (rdtsc (tsc_edx (readings p (Suc i))) (tsc_eax (readings p (Suc i))) - tss) div 733333 < 2 ^ 32"
  shows "sample_body p ps pf ts tss step i = (iteration_trace p ps pf ts tss step i, None)"
  using sample_body_ok [OF assms, of ps ts step]
  by (simp add: display_shape ticks_delta_def)

lemma sample_body_div0:
  "sample_body p ps 0 ts tss step i =
     ([CallKeQueryPerformanceCounter, ReadKeTickCount, InsnRdtsc], Some DivideError)"
  by (simp add: sample_body_def Let_def perf_delta_def)







subsection \<open>The sampling loop\<close>

lemma iterations_0: "step \<noteq> 0 \<Longrightarrow> iterations step stop elapsed = 0 \<Longrightarrow> \<not> elapsed < stop"
proof
  assume s: "step \<noteq> 0" and z: "iterations step stop elapsed = 0" and lt: "elapsed < stop"
  have sp: "0 < unat step" using s by (simp add: unat_gt_0)
  have "unat elapsed < unat stop" using lt by (simp add: word_less_nat_alt)
  then have "unat step \<le> unat stop - unat elapsed + unat step - 1" by simp
  then have "1 \<le> (unat stop - unat elapsed + unat step - 1) div unat step"
    using sp by (simp add: div_greater_zero_iff Suc_le_eq)
  then show False using z by (simp add: iterations_def)
qed

lemma iterations_Suc:
  assumes s: "step \<noteq> 0" and nw: "unat stop + unat step \<le> 2 ^ 32"
    and n: "iterations step stop elapsed = Suc m"
  shows "elapsed < stop" and "iterations step stop (elapsed + step) = m"
proof -
  have sp: "0 < unat step" using s by (simp add: unat_gt_0)
  show lt: "elapsed < stop"
  proof (rule ccontr)
    assume "\<not> elapsed < stop"
    then have "unat stop \<le> unat elapsed" by (simp add: word_less_nat_alt)
    then have "iterations step stop elapsed = 0"
      using sp by (simp add: iterations_def)
    then show False using n by simp
  qed
  then have l: "unat elapsed < unat stop" by (simp add: word_less_nat_alt)
  then have "unat elapsed + unat step < 2 ^ LENGTH(32)" using nw by simp
  then have u: "unat (elapsed + step) = unat elapsed + unat step"
    by (simp only: unat_add_lem)
  show "iterations step stop (elapsed + step) = m"
  proof (cases "unat elapsed + unat step \<le> unat stop")
    case True
    define a where "a = unat stop - (unat elapsed + unat step) + unat step - 1"
    have A: "unat stop - unat elapsed + unat step - 1 = a + unat step"
      unfolding a_def using True sp by linarith
    have "iterations step stop elapsed = (a + unat step) div unat step"
      unfolding iterations_def A ..
    also have "\<dots> = Suc (a div unat step)"
      using sp div_add_self2 [of "unat step" a] by linarith
    also have "a div unat step = iterations step stop (elapsed + step)"
      unfolding iterations_def u a_def ..
    finally show ?thesis using n by simp
  next
    case False
    then have "unat stop - (unat elapsed + unat step) + unat step - 1 < unat step"
      using sp by linarith
    then have z: "iterations step stop (elapsed + step) = 0"
      unfolding iterations_def u by simp
    have "unat stop - unat elapsed + unat step - 1 < unat step * 2" using False l by linarith
    then have "iterations step stop elapsed < 2"
      unfolding iterations_def using sp by (simp add: less_mult_imp_div_less)
    then show ?thesis using n z by simp
  qed
qed

lemma sample_loop_extends:
  assumes s: "step \<noteq> 0" and nw: "unat stop + unat step \<le> 2 ^ 32"
  shows "\<exists>e vis rest. sample_loop step stop body elapsed i visited tr = Some (e, vis, tr @ rest)
           \<and> set rest \<subseteq> (\<Union>j. set (fst (body j)))"
proof (induction "iterations step stop elapsed" arbitrary: elapsed i visited tr)
  case 0
  then have "\<not> elapsed < stop" using iterations_0 [OF s] by simp
  then show ?case by (subst sample_loop.simps) simp
next
  case (Suc m)
  have lt: "elapsed < stop" and m: "m = iterations step stop (elapsed + step)"
    using iterations_Suc [OF s nw Suc.hyps(2) [symmetric]] by simp_all
  obtain evs r where b: "body i = (evs, r)" by (cases "body i")
  have sub: "set evs \<subseteq> (\<Union>j. set (fst (body j)))"
    using b by (metis UN_upper UNIV_I fst_conv)
  show ?case
  proof (cases r)
    case None
    obtain e vis rest where
      r: "sample_loop step stop body (elapsed + step) (Suc i) (visited @ [elapsed]) (tr @ evs)
            = Some (e, vis, (tr @ evs) @ rest)"
      and rs: "set rest \<subseteq> (\<Union>j. set (fst (body j)))"
      using Suc.hyps(1) [OF m] by blast
    have "sample_loop step stop body elapsed i visited tr = Some (e, vis, tr @ (evs @ rest))"
      using lt b None r by (subst sample_loop.simps) simp
    moreover have "set (evs @ rest) \<subseteq> (\<Union>j. set (fst (body j)))" using sub rs by simp
    ultimately show ?thesis by blast
  next
    case (Some f)
    have "sample_loop step stop body elapsed i visited tr = Some (Fault f, visited @ [elapsed], tr @ evs)"
      using lt b Some by (subst sample_loop.simps) simp
    then show ?thesis using sub by blast
  qed
qed

lemma sample_loop_complete:
  assumes s: "step \<noteq> 0" and nw: "unat stop + unat step \<le> 2 ^ 32"
    and nf: "\<And>j. i \<le> j \<Longrightarrow> j < i + iterations step stop elapsed \<Longrightarrow> snd (body j) = None"
  shows "sample_loop step stop body elapsed i visited tr =
     Some (Normal,
           visited @ map (\<lambda>k. elapsed + word_of_nat k * step) [0..<iterations step stop elapsed],
           tr @ concat (map (\<lambda>j. fst (body j)) [i..<i + iterations step stop elapsed]))"
  using nf
proof (induction "iterations step stop elapsed" arbitrary: elapsed i visited tr)
  case 0
  then have "\<not> elapsed < stop" using iterations_0 [OF s] by simp
  then show ?case using 0 by (subst sample_loop.simps) simp
next
  case (Suc m)
  have lt: "elapsed < stop" and m: "m = iterations step stop (elapsed + step)"
    using iterations_Suc [OF s nw Suc.hyps(2) [symmetric]] by simp_all
  have n: "iterations step stop elapsed = Suc m" using Suc.hyps(2) by simp
  have "snd (body i) = None" using Suc.prems [of i] n by simp
  then have b: "body i = (fst (body i), None)" by (cases "body i") simp
  have nf': "\<And>j. Suc i \<le> j \<Longrightarrow> j < Suc i + iterations step stop (elapsed + step) \<Longrightarrow> snd (body j) = None"
    using Suc.prems n m by simp
  have u1: "[0..<Suc m] = 0 # map Suc [0..<m]"
    by (simp add: upt_conv_Cons map_Suc_upt del: upt_Suc)
  have u2: "[i..<i + Suc m] = i # [Suc i..<Suc i + m]"
    by (simp add: upt_conv_Cons del: upt_Suc)
  have "sample_loop step stop body elapsed i visited tr =
        sample_loop step stop body (elapsed + step) (Suc i) (visited @ [elapsed]) (tr @ fst (body i))"
    using lt by (subst sample_loop.simps, subst b) simp
  also have "\<dots> = Some (Normal,
           (visited @ [elapsed]) @ map (\<lambda>k. (elapsed + step) + word_of_nat k * step) [0..<m],
           (tr @ fst (body i)) @ concat (map (\<lambda>j. fst (body j)) [Suc i..<Suc i + m]))"
    using Suc.hyps(1) [OF m nf'] m by simp
  also have "\<dots> = Some (Normal,
           visited @ map (\<lambda>k. elapsed + word_of_nat k * step) [0..<Suc m],
           tr @ concat (map (\<lambda>j. fst (body j)) [i..<i + Suc m]))"
    unfolding u1 u2 by (simp add: comp_def algebra_simps)
  finally show ?case unfolding n .
qed

lemma iterations_bounds:
  assumes s: "step \<noteq> 0"
  shows "unat stop \<le> iterations step stop 0 * unat step"
    and "k < iterations step stop 0 \<Longrightarrow> k * unat step < unat stop"
proof -
  have sp: "0 < unat step" using s by (simp add: unat_gt_0)
  define a where "a = unat stop + unat step - 1"
  define b where "b = unat step"
  have n: "iterations step stop 0 = a div b" by (simp add: iterations_def a_def b_def)
  have e: "a div b * b + a mod b = a" by simp
  have r: "a mod b < b" using sp by (simp add: b_def)
  have "a < a div b * b + b" using e r by linarith
  then show "unat stop \<le> iterations step stop 0 * unat step"
    unfolding n using sp by (simp add: a_def b_def)
  assume "k < iterations step stop 0"
  then have "Suc k \<le> a div b" unfolding n by simp
  then have "Suc k * b \<le> a div b * b" by (rule mult_le_mono1)
  also have "\<dots> \<le> a" using e by linarith
  finally have "k * b + b \<le> unat stop + b - 1" by (simp add: a_def b_def)
  then show "k * unat step < unat stop" using sp by (simp add: b_def)
qed

lemma iterations_5: "iterations 1000 5000 0 = 5" by (simp add: iterations_def)
lemma iterations_315: "iterations SAMPLE_STEP SAMPLE_END 0 = 315" by (simp add: iterations_def SAMPLE_STEP_def SAMPLE_END_def)
lemma counters_5: "map (\<lambda>k. word_of_nat k * (1000::u32)) [0..<5] = [0, 1000, 2000, 3000, 4000]"
  by (simp add: upt_conv_Cons)

lemma consts_ok: "SAMPLE_STEP \<noteq> 0" "unat SAMPLE_END + unat SAMPLE_STEP \<le> 2 ^ 32" "0 < SAMPLE_END"
  by (simp_all add: SAMPLE_STEP_def SAMPLE_END_def)

lemma sample_loop_shown:
  assumes pf: "perf_freq \<noteq> 0"
    and fit: "\<And>i. i < iterations step stop 0 \<Longrightarrow>
       unat (rdtsc (tsc_edx (readings p (Suc i))) (tsc_eax (readings p (Suc i))) - tsc_start) div 733333 < 2 ^ 32"
    and s: "step \<noteq> 0" and nw: "unat stop + unat step \<le> 2 ^ 32"
  shows "sample_loop step stop (sample_body p perf_start perf_freq ticks_start tsc_start step) 0 0 [] tr =
       Some (Normal, map (\<lambda>k. word_of_nat k * step) [0..<iterations step stop 0],
         tr @ concat (map (iteration_trace p perf_start perf_freq ticks_start tsc_start step)
                        [0..<iterations step stop 0]))"
proof -
  define n where "n = iterations step stop 0"
  define body where "body = sample_body p perf_start perf_freq ticks_start tsc_start step"
  have ok: "body j = (iteration_trace p perf_start perf_freq ticks_start tsc_start step j, None)"
    if "j < n" for j
    unfolding body_def using sample_body_shown [OF pf fit] that by (simp add: n_def)
  have nf: "\<And>j. 0 \<le> j \<Longrightarrow> j < 0 + iterations step stop 0 \<Longrightarrow> snd (body j) = None"
    using ok by (simp add: n_def)
  have A: "sample_loop step stop body 0 0 [] tr =
     Some (Normal, map (\<lambda>k. word_of_nat k * step) [0..<n],
           tr @ concat (map (\<lambda>j. fst (body j)) [0..<n]))"
    using sample_loop_complete [OF s nw nf, where visited = "[]" and tr = tr] by (simp add: n_def)
  have B: "map (\<lambda>j. fst (body j)) [0..<n]
      = map (iteration_trace p perf_start perf_freq ticks_start tsc_start step) [0..<n]"
    using ok by simp
  show ?thesis
    using A unfolding B n_def [symmetric] body_def [symmetric] .
qed

lemma sample_loop_div0:
  assumes "0 < stop"
  shows "sample_loop step stop (sample_body p perf_start 0 ticks_start tsc_start step) 0 0 [] tr =
     Some (Fault DivideError, [0], tr @ [CallKeQueryPerformanceCounter, ReadKeTickCount, InsnRdtsc])"
  using assms by (subst sample_loop.simps) (simp add: sample_body_div0)

text \<open>
  C5, as claimed: the counter starts at 0, advances by the step in every iteration, the
  loop ends once the counter has reached the end value, and with step 1000 and end 5000
  there are exactly five displayed iterations, at the counter values 0, 1000, 2000, 3000,
  4000.  Not in every run: on a platform whose performance counter reports 999 Hz the
  frequency in ticks per millisecond is 0, the division of the first iteration raises the
  divide error, and the loop with step 1000 and end 5000 ends at the counter value 0
  with nothing displayed.
\<close>

theorem sample_loop_faults_at_once:
  "(ucast (perf_frequency slow_clock) :: u32) div 1000 = 0
   \<and> sample_loop 1000 5000 (sample_body slow_clock 0 0 1200 0 1000) 0 0 [] [] =
       Some (Fault DivideError, [0],
             [CallKeQueryPerformanceCounter, ReadKeTickCount, InsnRdtsc])"
proof -
  have "(0 :: u32) < 5000" by simp
  from sample_loop_div0 [OF this, of 1000 slow_clock 0 1200 0 "[]"]
  show ?thesis by (simp add: slow_clock_def example_platform_def)
qed

text \<open>
  C5, amended: in a run in which no division of the loop body raises the divide error
  (the frequency in ticks per millisecond is not 0 and every cycle delta has a quotient
  by 733333 that fits in 32 bits), the counter starts at 0, advances by the step in
  every iteration, and the loop ends once the counter has reached or exceeded the end
  value: for every step \<open>> 0\<close> and end that do not make the counter wrap around, the
  body runs at the counter values \<open>0, step, 2 * step, \<dots>\<close> below the end, each time
  reading the counters, showing the display and sleeping; with step 1000 and end 5000
  there are exactly five displayed iterations, at 0, 1000, 2000, 3000, 4000; with the
  program's constants there are 315.  With a frequency of 0 ticks per millisecond the
  loop ends in the divide error in its first iteration.
\<close>

theorem sample_loop_counter:
  "(perf_freq \<noteq> 0 \<and> step \<noteq> 0 \<and> unat stop + unat step \<le> 2 ^ 32
      \<and> (\<forall>i<iterations step stop 0.
            unat (rdtsc (tsc_edx (readings p (Suc i))) (tsc_eax (readings p (Suc i))) - tsc_start)
              div 733333 < 2 ^ 32) \<longrightarrow>
        sample_loop step stop (sample_body p perf_start perf_freq ticks_start tsc_start step)
            0 0 [] tr =
          Some (Normal, map (\<lambda>k. word_of_nat k * step) [0..<iterations step stop 0],
            tr @ concat (map (iteration_trace p perf_start perf_freq ticks_start tsc_start step)
                           [0..<iterations step stop 0]))
        \<and> unat stop \<le> iterations step stop 0 * unat step
        \<and> (\<forall>k. k < iterations step stop 0 \<longrightarrow> k * unat step < unat stop))
   \<and> (perf_freq \<noteq> 0
      \<and> (\<forall>i<5. unat (rdtsc (tsc_edx (readings p (Suc i))) (tsc_eax (readings p (Suc i))) - tsc_start)
              div 733333 < 2 ^ 32) \<longrightarrow>
        sample_loop 1000 5000 (sample_body p perf_start perf_freq ticks_start tsc_start 1000)
            0 0 [] tr =
          Some (Normal, [0, 1000, 2000, 3000, 4000],
            tr @ iteration_trace p perf_start perf_freq ticks_start tsc_start 1000 0
               @ iteration_trace p perf_start perf_freq ticks_start tsc_start 1000 1
               @ iteration_trace p perf_start perf_freq ticks_start tsc_start 1000 2
               @ iteration_trace p perf_start perf_freq ticks_start tsc_start 1000 3
               @ iteration_trace p perf_start perf_freq ticks_start tsc_start 1000 4))
   \<and> (perf_freq \<noteq> 0
      \<and> (\<forall>i<315. unat (rdtsc (tsc_edx (readings p (Suc i))) (tsc_eax (readings p (Suc i))) - tsc_start)
              div 733333 < 2 ^ 32) \<longrightarrow>
        sample_loop SAMPLE_STEP SAMPLE_END
            (sample_body p perf_start perf_freq ticks_start tsc_start SAMPLE_STEP) 0 0 [] tr =
          Some (Normal, map (\<lambda>k. word_of_nat k * 1000) [0..<315],
            tr @ concat (map (iteration_trace p perf_start perf_freq ticks_start tsc_start 1000)
                           [0..<315])))
   \<and> (0 < stop \<longrightarrow>
        sample_loop step stop (sample_body p perf_start 0 ticks_start tsc_start step) 0 0 [] tr =
          Some (Fault DivideError, [0],
                tr @ [CallKeQueryPerformanceCounter, ReadKeTickCount, InsnRdtsc]))"
proof (intro conjI impI allI)
  assume a: "perf_freq \<noteq> 0 \<and> step \<noteq> 0 \<and> unat stop + unat step \<le> 2 ^ 32
      \<and> (\<forall>i<iterations step stop 0.
            unat (rdtsc (tsc_edx (readings p (Suc i))) (tsc_eax (readings p (Suc i))) - tsc_start)
              div 733333 < 2 ^ 32)"
  show "sample_loop step stop (sample_body p perf_start perf_freq ticks_start tsc_start step)
            0 0 [] tr =
          Some (Normal, map (\<lambda>k. word_of_nat k * step) [0..<iterations step stop 0],
            tr @ concat (map (iteration_trace p perf_start perf_freq ticks_start tsc_start step)
                           [0..<iterations step stop 0]))"
    using a by (intro sample_loop_shown) simp_all
  show "unat stop \<le> iterations step stop 0 * unat step"
    using a by (simp add: iterations_bounds(1))
  fix k assume "k < iterations step stop 0"
  then show "k * unat step < unat stop"
    using a by (simp add: iterations_bounds(2))
next
  assume a: "perf_freq \<noteq> 0
      \<and> (\<forall>i<5. unat (rdtsc (tsc_edx (readings p (Suc i))) (tsc_eax (readings p (Suc i))) - tsc_start)
              div 733333 < 2 ^ 32)"
  have "sample_loop 1000 5000 (sample_body p perf_start perf_freq ticks_start tsc_start 1000)
            0 0 [] tr =
          Some (Normal, map (\<lambda>k. word_of_nat k * 1000) [0..<iterations 1000 5000 0],
            tr @ concat (map (iteration_trace p perf_start perf_freq ticks_start tsc_start 1000)
                           [0..<iterations 1000 5000 0]))"
    using a by (intro sample_loop_shown) (simp_all add: iterations_5)
  moreover have "[0..<5] = [0, 1, 2, 3, 4 :: nat]" by (simp add: upt_conv_Cons)
  ultimately show "sample_loop 1000 5000 (sample_body p perf_start perf_freq ticks_start tsc_start 1000)
            0 0 [] tr =
          Some (Normal, [0, 1000, 2000, 3000, 4000],
            tr @ iteration_trace p perf_start perf_freq ticks_start tsc_start 1000 0
               @ iteration_trace p perf_start perf_freq ticks_start tsc_start 1000 1
               @ iteration_trace p perf_start perf_freq ticks_start tsc_start 1000 2
               @ iteration_trace p perf_start perf_freq ticks_start tsc_start 1000 3
               @ iteration_trace p perf_start perf_freq ticks_start tsc_start 1000 4)"
    unfolding iterations_5 counters_5 by simp
next
  assume a: "perf_freq \<noteq> 0
      \<and> (\<forall>i<315. unat (rdtsc (tsc_edx (readings p (Suc i))) (tsc_eax (readings p (Suc i))) - tsc_start)
              div 733333 < 2 ^ 32)"
  have "sample_loop SAMPLE_STEP SAMPLE_END
            (sample_body p perf_start perf_freq ticks_start tsc_start SAMPLE_STEP) 0 0 [] tr =
          Some (Normal, map (\<lambda>k. word_of_nat k * SAMPLE_STEP) [0..<iterations SAMPLE_STEP SAMPLE_END 0],
            tr @ concat (map (iteration_trace p perf_start perf_freq ticks_start tsc_start SAMPLE_STEP)
                           [0..<iterations SAMPLE_STEP SAMPLE_END 0]))"
    using a consts_ok by (intro sample_loop_shown) (simp_all add: iterations_315)
  then show "sample_loop SAMPLE_STEP SAMPLE_END
            (sample_body p perf_start perf_freq ticks_start tsc_start SAMPLE_STEP) 0 0 [] tr =
          Some (Normal, map (\<lambda>k. word_of_nat k * 1000) [0..<315],
            tr @ concat (map (iteration_trace p perf_start perf_freq ticks_start tsc_start 1000)
                           [0..<315]))"
    unfolding iterations_315 by (simp only: SAMPLE_STEP_def)
next
  assume "0 < stop"
  then show "sample_loop step stop (sample_body p perf_start 0 ticks_start tsc_start step) 0 0 [] tr =
          Some (Fault DivideError, [0],
                tr @ [CallKeQueryPerformanceCounter, ReadKeTickCount, InsnRdtsc])"
    by (rule sample_loop_div0)
qed

lemma example_trace:
  "iteration_trace example_platform 0 3375 1200 0 1000 i = iteration_events 1000 0 3800 2"
  by (simp add: example_platform_def rdtsc_def)

theorem sample_loop_counter_witness:
  "sample_loop 1000 5000 (sample_body example_platform 0 3375 1200 0 1000) 0 0 [] [] =
      Some (Normal, [0, 1000, 2000, 3000, 4000],
            iteration_events 1000 0 3800 2 @ iteration_events 1000 0 3800 2
              @ iteration_events 1000 0 3800 2 @ iteration_events 1000 0 3800 2
              @ iteration_events 1000 0 3800 2)
   \<and> unat (5000 :: u32) \<le> iterations 1000 5000 0 * unat (1000 :: u32)
   \<and> sample_loop 1000 5000 (sample_body example_platform 0 0 1200 0 1000) 0 0 [] [] =
      Some (Fault DivideError, [0], [CallKeQueryPerformanceCounter, ReadKeTickCount, InsnRdtsc])"
proof -
  have f: "(3375 :: u32) \<noteq> 0" by simp
  have g: "(1000 :: u32) \<noteq> 0 \<and> unat (5000 :: u32) + unat (1000 :: u32) \<le> 2 ^ 32" by simp
  have h: "(0 :: u32) < 5000" by simp
  have fit: "unat (rdtsc (tsc_edx (readings example_platform (Suc i)))
                 (tsc_eax (readings example_platform (Suc i))) - 0) div 733333 < 2 ^ 32" for i
    by (simp add: example_platform_def rdtsc_def)
  note t = sample_loop_counter [of 3375 1000 5000 example_platform 0 0 1200 "[]"]
  have A: "sample_loop 1000 5000 (sample_body example_platform 0 3375 1200 0 1000) 0 0 [] [] =
      Some (Normal, [0, 1000, 2000, 3000, 4000],
            iteration_events 1000 0 3800 2 @ iteration_events 1000 0 3800 2
              @ iteration_events 1000 0 3800 2 @ iteration_events 1000 0 3800 2
              @ iteration_events 1000 0 3800 2)"
    using t [THEN conjunct2, THEN conjunct1] f fit unfolding example_trace by simp
  have B: "unat (5000 :: u32) \<le> iterations 1000 5000 0 * unat (1000 :: u32)"
    using t [THEN conjunct1] f g fit by blast
  have C: "sample_loop 1000 5000 (sample_body example_platform 0 0 1200 0 1000) 0 0 [] [] =
      Some (Fault DivideError, [0], [CallKeQueryPerformanceCounter, ReadKeTickCount, InsnRdtsc])"
    using t [THEN conjunct2, THEN conjunct2, THEN conjunct2] h by simp
  show ?thesis using A B C by blast
qed

subsection \<open>The whole program\<close>

lemma main_fail:
  "pb_init_status p \<noteq> 0 \<Longrightarrow> main p = Some (Normal, [CallPbInit, CallXSleep 2000, CallXReboot])"
  by (simp add: main_def)

lemma main_returns:
  "\<exists>e tr. main p = Some (e, tr) \<and> (\<forall>a v. Store a v \<notin> set tr)"
proof (cases "pb_init_status p = 0")
  case False
  then show ?thesis by (simp add: main_fail)
next
  case True
  define body where "body = sample_body p (perf_counter (readings p 0))
      ((ucast (perf_frequency p) :: u32) div 1000) (tick_count (readings p 0))
      (rdtsc (tsc_edx (readings p 0)) (tsc_eax (readings p 0))) SAMPLE_STEP"
  define pre where "pre = [CallPbInit, CallPbShowDebugScreen, CallKeQueryPerformanceCounter,
                   CallKeQueryPerformanceFrequency, ReadKeTickCount, InsnRdtsc]"
  obtain e vis rest where
    l: "sample_loop SAMPLE_STEP SAMPLE_END body 0 0 [] pre = Some (e, vis, pre @ rest)"
    and sub: "set rest \<subseteq> (\<Union>j. set (fst (body j)))"
    using sample_loop_extends [OF consts_ok(1) consts_ok(2)] by blast
  have ns: "Store a v \<notin> set rest" for a v
    using sub sample_body_no_store unfolding body_def by fastforce
  have m: "main p = (case e of Fault f \<Rightarrow> Some (Fault f, pre @ rest)
                     | Normal \<Rightarrow> Some (Normal, (pre @ rest) @ [CallPbKill, CallXReboot]))"
    using True l unfolding body_def pre_def by (simp add: main_def Let_def split: ending.splits)
  show ?thesis
  proof (cases e)
    case Normal
    then show ?thesis using m ns by (simp add: pre_def)
  next
    case (Fault f)
    then show ?thesis using m ns by (simp add: pre_def)
  qed
qed

lemma main_enters_loop:
  assumes "pb_init_status p = 0"
  shows "\<exists>e rest. main p = Some (e,
     [CallPbInit, CallPbShowDebugScreen, CallKeQueryPerformanceCounter,
      CallKeQueryPerformanceFrequency, ReadKeTickCount, InsnRdtsc]
     @ [CallKeQueryPerformanceCounter, ReadKeTickCount, InsnRdtsc] @ rest)"
proof -
  define body where "body = sample_body p (perf_counter (readings p 0))
      ((ucast (perf_frequency p) :: u32) div 1000) (tick_count (readings p 0))
      (rdtsc (tsc_edx (readings p 0)) (tsc_eax (readings p 0))) SAMPLE_STEP"
  define pre where "pre = [CallPbInit, CallPbShowDebugScreen, CallKeQueryPerformanceCounter,
                   CallKeQueryPerformanceFrequency, ReadKeTickCount, InsnRdtsc]"
  define reads where "reads = [CallKeQueryPerformanceCounter, ReadKeTickCount, InsnRdtsc]"
  obtain r0 where b0: "fst (body 0) = reads @ r0"
    using sample_body_reads unfolding body_def reads_def by blast
  have "\<exists>e vis rest. sample_loop SAMPLE_STEP SAMPLE_END body 0 0 [] pre = Some (e, vis, pre @ reads @ rest)"
  proof (cases "snd (body 0)")
    case None
    then have b: "body 0 = (reads @ r0, None)" using b0 by (cases "body 0") simp
    obtain e vis rest where
      "sample_loop SAMPLE_STEP SAMPLE_END body (0 + SAMPLE_STEP) (Suc 0) ([] @ [0]) (pre @ reads @ r0)
         = Some (e, vis, (pre @ reads @ r0) @ rest)"
      using sample_loop_extends [OF consts_ok(1) consts_ok(2)] by blast
    then have "sample_loop SAMPLE_STEP SAMPLE_END body 0 0 [] pre = Some (e, vis, pre @ reads @ (r0 @ rest))"
      using consts_ok(3) b by (subst sample_loop.simps) simp
    then show ?thesis by blast
  next
    case (Some f)
    then have b: "body 0 = (reads @ r0, Some f)" using b0 by (cases "body 0") simp
    have "sample_loop SAMPLE_STEP SAMPLE_END body 0 0 [] pre = Some (Fault f, [0], pre @ reads @ r0)"
      using consts_ok(3) b by (subst sample_loop.simps) simp
    then show ?thesis by blast
  qed
  then obtain e vis rest where
    l: "sample_loop SAMPLE_STEP SAMPLE_END body 0 0 [] pre = Some (e, vis, pre @ reads @ rest)"
    by blast
  have m: "main p = (case e of Fault f \<Rightarrow> Some (Fault f, pre @ reads @ rest)
                     | Normal \<Rightarrow> Some (Normal, (pre @ reads @ rest) @ [CallPbKill, CallXReboot]))"
    using assms l unfolding body_def pre_def by (simp add: main_def Let_def split: ending.splits)
  show ?thesis
  proof (cases e)
    case Normal
    then have "main p = Some (Normal, pre @ reads @ (rest @ [CallPbKill, CallXReboot]))"
      using m by simp
    then show ?thesis unfolding pre_def reads_def by blast
  next
    case (Fault f)
    then have "main p = Some (Fault f, pre @ reads @ rest)"
      using m by simp
    then show ?thesis unfolding pre_def reads_def by blast
  qed
qed

lemma main_completes:
  assumes i: "pb_init_status p = 0"
    and pf: "(ucast (perf_frequency p) :: u32) div 1000 \<noteq> 0"
    and fit: "\<And>i. i < 315 \<Longrightarrow> unat (rdtsc (tsc_edx (readings p (Suc i))) (tsc_eax (readings p (Suc i)))
                  - rdtsc (tsc_edx (readings p 0)) (tsc_eax (readings p 0))) div 733333 < 2 ^ 32"
  shows "main p = Some (Normal,
     [CallPbInit, CallPbShowDebugScreen, CallKeQueryPerformanceCounter,
      CallKeQueryPerformanceFrequency, ReadKeTickCount, InsnRdtsc]
     @ concat (map (iteration_trace p (perf_counter (readings p 0))
                      ((ucast (perf_frequency p) :: u32) div 1000) (tick_count (readings p 0))
                      (rdtsc (tsc_edx (readings p 0)) (tsc_eax (readings p 0))) 1000) [0..<315])
     @ [CallPbKill, CallXReboot])"
proof -
  define pre where "pre = [CallPbInit, CallPbShowDebugScreen, CallKeQueryPerformanceCounter,
                   CallKeQueryPerformanceFrequency, ReadKeTickCount, InsnRdtsc]"
  have fit': "\<And>i. i < iterations SAMPLE_STEP SAMPLE_END 0 \<Longrightarrow>
      unat (rdtsc (tsc_edx (readings p (Suc i))) (tsc_eax (readings p (Suc i)))
                  - rdtsc (tsc_edx (readings p 0)) (tsc_eax (readings p 0))) div 733333 < 2 ^ 32"
    using fit by (simp add: iterations_315)
  have l: "sample_loop SAMPLE_STEP SAMPLE_END
       (sample_body p (perf_counter (readings p 0)) ((ucast (perf_frequency p) :: u32) div 1000)
          (tick_count (readings p 0)) (rdtsc (tsc_edx (readings p 0)) (tsc_eax (readings p 0))) SAMPLE_STEP)
       0 0 [] pre =
       Some (Normal, map (\<lambda>k. word_of_nat k * SAMPLE_STEP) [0..<iterations SAMPLE_STEP SAMPLE_END 0],
         pre @ concat (map (iteration_trace p (perf_counter (readings p 0))
                      ((ucast (perf_frequency p) :: u32) div 1000) (tick_count (readings p 0))
                      (rdtsc (tsc_edx (readings p 0)) (tsc_eax (readings p 0))) SAMPLE_STEP)
                  [0..<iterations SAMPLE_STEP SAMPLE_END 0]))"
    by (rule sample_loop_shown [OF pf fit' consts_ok(1) consts_ok(2)])
  have "main p = Some (Normal, (pre @ concat (map (iteration_trace p (perf_counter (readings p 0))
                      ((ucast (perf_frequency p) :: u32) div 1000) (tick_count (readings p 0))
                      (rdtsc (tsc_edx (readings p 0)) (tsc_eax (readings p 0))) SAMPLE_STEP)
                  [0..<iterations SAMPLE_STEP SAMPLE_END 0])) @ [CallPbKill, CallXReboot])"
    using i l unfolding pre_def by (simp add: main_def Let_def)
  then show ?thesis unfolding iterations_315 pre_def by (simp add: SAMPLE_STEP_def)
qed

lemma main_div0:
  assumes i: "pb_init_status p = 0"
    and pf: "(ucast (perf_frequency p) :: u32) div 1000 = 0"
  shows "main p = Some (Fault DivideError,
     [CallPbInit, CallPbShowDebugScreen, CallKeQueryPerformanceCounter,
      CallKeQueryPerformanceFrequency, ReadKeTickCount, InsnRdtsc,
      CallKeQueryPerformanceCounter, ReadKeTickCount, InsnRdtsc])"
  using i by (simp add: main_def Let_def pf sample_loop_div0 [OF consts_ok(3)])

lemma example_run_ok:
  "pb_init_status example_platform = 0 \<and> (ucast (perf_frequency example_platform) :: u32) div 1000 \<noteq> 0
        \<and> (\<forall>i<315. unat (rdtsc (tsc_edx (readings example_platform (Suc i))) (tsc_eax (readings example_platform (Suc i)))
                  - rdtsc (tsc_edx (readings example_platform 0)) (tsc_eax (readings example_platform 0))) div 733333 < 2 ^ 32)"
  by (simp add: example_platform_def rdtsc_def)

lemma example_trace_main:
  "iteration_trace example_platform (perf_counter (readings example_platform 0))
      ((ucast (perf_frequency example_platform) :: u32) div 1000)
      (tick_count (readings example_platform 0))
      (rdtsc (tsc_edx (readings example_platform 0)) (tsc_eax (readings example_platform 0))) 1000
   = (\<lambda>i. iteration_events 1000 0 3800 2)"
  by (rule ext) (simp add: example_platform_def rdtsc_def)

text \<open>
  C8, as claimed: a failing graphics initialisation leads to a pause and a restart
  without baseline or loop, this is the only error path, and after a successful
  initialisation the full sequence of baseline capture and loop runs.  The last part
  fails: on the platform whose performance counter reports 999 Hz the initialisation
  succeeds, and the run ends in the divide error in the first iteration, before anything
  is displayed.
\<close>

theorem main_faults_on_slow_clock:
  "pb_init_status slow_clock = 0
   \<and> main slow_clock = Some (Fault DivideError,
     [CallPbInit, CallPbShowDebugScreen, CallKeQueryPerformanceCounter,
      CallKeQueryPerformanceFrequency, ReadKeTickCount, InsnRdtsc,
      CallKeQueryPerformanceCounter, ReadKeTickCount, InsnRdtsc])"
proof -
  have a: "pb_init_status slow_clock = 0"
    by (simp add: slow_clock_def example_platform_def)
  have b: "(ucast (perf_frequency slow_clock) :: u32) div 1000 = 0"
    by (simp add: slow_clock_def)
  show ?thesis using a main_div0 [OF a b] by simp
qed

text \<open>
  C8, amended: when graphics initialisation fails (\<open>pb_init\<close> returns nonzero) the
  program sleeps for two seconds and restarts the console: no counter is read and the
  loop is not entered; this early restart happens in no other case and is the only error
  the program handles.  When initialisation succeeds the program shows the debug screen,
  captures the baseline and enters the loop; if no division raises the divide error (the
  frequency in ticks per millisecond is not 0 and every cycle delta has a quotient that
  fits in 32 bits) it runs all 315 iterations, shuts the graphics down and restarts the
  console; with a frequency of 0 ticks per millisecond the run ends in the divide error
  in the first iteration.
\<close>

theorem main_init_paths:
  "(pb_init_status p \<noteq> 0 \<longrightarrow>
      main p = Some (Normal, [CallPbInit, CallXSleep 2000, CallXReboot]))
   \<and> ((main p = Some (Normal, [CallPbInit, CallXSleep 2000, CallXReboot]))
          = (pb_init_status p \<noteq> 0))
   \<and> (pb_init_status p = 0 \<longrightarrow>
        (\<exists>e rest. main p = Some (e,
           [CallPbInit, CallPbShowDebugScreen, CallKeQueryPerformanceCounter,
            CallKeQueryPerformanceFrequency, ReadKeTickCount, InsnRdtsc]
           @ [CallKeQueryPerformanceCounter, ReadKeTickCount, InsnRdtsc] @ rest)))
   \<and> (pb_init_status p = 0 \<and> (ucast (perf_frequency p) :: u32) div 1000 \<noteq> 0
        \<and> (\<forall>i<315. unat (rdtsc (tsc_edx (readings p (Suc i))) (tsc_eax (readings p (Suc i)))
                  - rdtsc (tsc_edx (readings p 0)) (tsc_eax (readings p 0))) div 733333 < 2 ^ 32) \<longrightarrow>
        main p = Some (Normal,
           [CallPbInit, CallPbShowDebugScreen, CallKeQueryPerformanceCounter,
            CallKeQueryPerformanceFrequency, ReadKeTickCount, InsnRdtsc]
           @ concat (map (iteration_trace p (perf_counter (readings p 0))
                      ((ucast (perf_frequency p) :: u32) div 1000) (tick_count (readings p 0))
                      (rdtsc (tsc_edx (readings p 0)) (tsc_eax (readings p 0))) 1000) [0..<315])
           @ [CallPbKill, CallXReboot]))
   \<and> (pb_init_status p = 0 \<and> (ucast (perf_frequency p) :: u32) div 1000 = 0 \<longrightarrow>
        main p = Some (Fault DivideError,
           [CallPbInit, CallPbShowDebugScreen, CallKeQueryPerformanceCounter,
            CallKeQueryPerformanceFrequency, ReadKeTickCount, InsnRdtsc,
            CallKeQueryPerformanceCounter, ReadKeTickCount, InsnRdtsc]))"
proof (intro conjI impI)
  assume "pb_init_status p \<noteq> 0"
  then show "main p = Some (Normal, [CallPbInit, CallXSleep 2000, CallXReboot])"
    by (rule main_fail)
next
  show "(main p = Some (Normal, [CallPbInit, CallXSleep 2000, CallXReboot]))
          = (pb_init_status p \<noteq> 0)"
  proof (cases "pb_init_status p = 0")
    case True
    then show ?thesis using main_enters_loop [OF True] by auto
  next
    case False
    then show ?thesis by (simp add: main_fail)
  qed
next
  assume "pb_init_status p = 0"
  then show "\<exists>e rest. main p = Some (e,
           [CallPbInit, CallPbShowDebugScreen, CallKeQueryPerformanceCounter,
            CallKeQueryPerformanceFrequency, ReadKeTickCount, InsnRdtsc]
           @ [CallKeQueryPerformanceCounter, ReadKeTickCount, InsnRdtsc] @ rest)"
    by (rule main_enters_loop)
next
  assume a: "pb_init_status p = 0 \<and> (ucast (perf_frequency p) :: u32) div 1000 \<noteq> 0
        \<and> (\<forall>i<315. unat (rdtsc (tsc_edx (readings p (Suc i))) (tsc_eax (readings p (Suc i)))
                  - rdtsc (tsc_edx (readings p 0)) (tsc_eax (readings p 0))) div 733333 < 2 ^ 32)"
  show "main p = Some (Normal,
           [CallPbInit, CallPbShowDebugScreen, CallKeQueryPerformanceCounter,
            CallKeQueryPerformanceFrequency, ReadKeTickCount, InsnRdtsc]
           @ concat (map (iteration_trace p (perf_counter (readings p 0))
                      ((ucast (perf_frequency p) :: u32) div 1000) (tick_count (readings p 0))
                      (rdtsc (tsc_edx (readings p 0)) (tsc_eax (readings p 0))) 1000) [0..<315])
           @ [CallPbKill, CallXReboot])"
    using a by (intro main_completes) simp_all
next
  assume "pb_init_status p = 0 \<and> (ucast (perf_frequency p) :: u32) div 1000 = 0"
  then show "main p = Some (Fault DivideError,
           [CallPbInit, CallPbShowDebugScreen, CallKeQueryPerformanceCounter,
            CallKeQueryPerformanceFrequency, ReadKeTickCount, InsnRdtsc,
            CallKeQueryPerformanceCounter, ReadKeTickCount, InsnRdtsc])"
    by (intro main_div0) simp_all
qed

theorem main_init_paths_witness:
  "main broken_display = Some (Normal, [CallPbInit, CallXSleep 2000, CallXReboot])
   \<and> main example_platform = Some (Normal,
           [CallPbInit, CallPbShowDebugScreen, CallKeQueryPerformanceCounter,
            CallKeQueryPerformanceFrequency, ReadKeTickCount, InsnRdtsc]
           @ concat (map (\<lambda>i. iteration_events 1000 0 3800 2) [0..<315])
           @ [CallPbKill, CallXReboot])
   \<and> main slow_clock = Some (Fault DivideError,
           [CallPbInit, CallPbShowDebugScreen, CallKeQueryPerformanceCounter,
            CallKeQueryPerformanceFrequency, ReadKeTickCount, InsnRdtsc,
            CallKeQueryPerformanceCounter, ReadKeTickCount, InsnRdtsc])"
proof -
  have b: "pb_init_status broken_display \<noteq> 0"
    by (simp add: broken_display_def)
  have c: "pb_init_status slow_clock = 0 \<and> (ucast (perf_frequency slow_clock) :: u32) div 1000 = 0"
    by (simp add: slow_clock_def example_platform_def)
  have "main example_platform = Some (Normal,
           [CallPbInit, CallPbShowDebugScreen, CallKeQueryPerformanceCounter,
            CallKeQueryPerformanceFrequency, ReadKeTickCount, InsnRdtsc]
           @ concat (map (\<lambda>i. iteration_events 1000 0 3800 2) [0..<315])
           @ [CallPbKill, CallXReboot])"
    using main_init_paths [of example_platform] example_run_ok
    unfolding example_trace_main by blast
  then show ?thesis
    using main_init_paths [of broken_display] b main_init_paths [of slow_clock] c by blast
qed

text \<open>
  C10.  The only call of \<open>divl\<close> is the one in \<open>tsc_to_ms\<close>, which passes \<open>NULL\<close>
  for the remainder; a call with \<open>NULL\<close> performs no store; and every run of the
  program ends without a single store through the remainder pointer.
\<close>

theorem divl_called_with_null_only:
  "tsc_to_ms t = divl t 733333 None
   \<and> (\<forall>q st. divl d v None = Inr (q, st) \<longrightarrow> st = [])
   \<and> (\<exists>e tr. main p = Some (e, tr) \<and> (\<forall>a c. Store a c \<notin> set tr))"
proof (intro conjI)
  show "tsc_to_ms t = divl t 733333 None" by (simp add: tsc_to_ms_def)
  show "\<forall>q st. divl d v None = Inr (q, st) \<longrightarrow> st = []"
    by (auto simp: divl_def Let_def split: sum.splits)
  show "\<exists>e tr. main p = Some (e, tr) \<and> (\<forall>a c. Store a c \<notin> set tr)"
    by (rule main_returns)
qed

theorem divl_called_with_null_only_witness:
  "divl 1466666 733333 None = Inr (2, [])
   \<and> (\<exists>e tr. main example_platform = Some (e, tr) \<and> (\<forall>a c. Store a c \<notin> set tr))"
proof -
  have "\<exists>q st. divl 1466666 733333 None = Inr (q, st) \<and> q = 2"
    by (simp add: divl_def x86_divl_def Let_def)
  with divl_called_with_null_only [of 0 1466666 733333 example_platform]
  show ?thesis by auto
qed

end
